theory Spec2Isabelle
  imports Complex_Main "HOL-Library.Multiset" "HOL-Library.Log_Nat"
begin

section \<open>The image gallery: data model\<close>

text \<open>
  The gallery page \<^verbatim>\<open>src/pages/Index.tsx\<close> keeps three lists in its state: the imported
  \<^verbatim>\<open>ImageFile\<close>s, the same files with their natural dimensions, and the positioned images
  of the waterfall layout. The interfaces extend each other, as the records do here.
  The field \<^verbatim>\<open>file\<close> (the browser's \<^verbatim>\<open>File\<close> handle) is read by none of the functions
  below and is left out. Fields whose names are HOL constants carry a prime.

  JavaScript numbers are doubles. Pixel quantities (\<^verbatim>\<open>window.innerWidth\<close>, the column
  count, the gap, every result of \<^verbatim>\<open>Math.floor\<close> and \<^verbatim>\<open>Math.round\<close>) are integers
  here, and sums of integers are exact, as they are in doubles below \<open>2 ^ 53\<close>. An
  aspect ratio is the rational value of a double, and the two divisions that are not
  floored, \<^verbatim>\<open>naturalWidth / naturalHeight\<close> and \<^verbatim>\<open>imageWidth / aspectRatio\<close>, round their
  quotient to a double. Where the JavaScript computation leaves the finite numbers
  (\<^verbatim>\<open>Infinity\<close>, \<^verbatim>\<open>NaN\<close>, \<^verbatim>\<open>undefined\<close>) or throws, the functions below return a fault.
\<close>

record ImageFile =
  id' :: string
  url :: string
  name :: string
  size' :: nat
  type' :: string
  dateModified :: int

record ImageWithDimensions = ImageFile +
  width :: nat
  height :: nat
  aspectRatio :: rat

record PositionedImage = ImageWithDimensions +
  column :: nat
  top' :: int
  calculatedHeight :: int
  calculatedWidth :: int

datatype js_fault =
    RangeError  \<comment> \<open>thrown by \<^verbatim>\<open>new Array(n)\<close> for a negative \<^verbatim>\<open>n\<close>\<close>
  | NonFinite   \<comment> \<open>a result that is \<^verbatim>\<open>Infinity\<close>, \<^verbatim>\<open>NaN\<close> or \<^verbatim>\<open>undefined\<close>\<close>

section \<open>Division of doubles\<close>

text \<open>
  A double has 53 significant bits. \<open>fl x\<close> is the double nearest to \<open>x\<close>, the one
  with an even last bit when two are equally near, as IEEE 754 rounds the result of a
  division. The exponent of a double is not bounded here: the quotients below are
  those of a viewport width and of natural dimensions of at most 32 bits, whose
  magnitude lies between \<open>2 ^ -64\<close> and \<open>2 ^ 64\<close>.
\<close>

definition exponent :: "rat \<Rightarrow> int" where
  \<comment> \<open>the \<open>e\<close> with \<open>2 ^ e \<le> \<bar>x\<bar> < 2 ^ (e + 1)\<close>, for \<open>x \<noteq> 0\<close>\<close>
  "exponent x =
     (let e = bitlen (fst (quotient_of \<bar>x\<bar>)) - bitlen (snd (quotient_of \<bar>x\<bar>))
      in if 2 powi e \<le> \<bar>x\<bar> then e else e - 1)"

definition roundTiesToEven :: "rat \<Rightarrow> int" where
  "roundTiesToEven y =
     (let n = \<lfloor>y\<rfloor>; r = y - of_int n
      in if r < 1 / 2 then n else if 1 / 2 < r then n + 1 else if even n then n else n + 1)"

definition fl :: "rat \<Rightarrow> rat" where
  "fl x = (if x = 0 then 0
           else let ulp = 2 powi (exponent x - 52)
                in of_int (roundTiesToEven (x / ulp)) * ulp)"

section \<open>Loading the dimensions of an image\<close>

text \<open>
  \<^verbatim>\<open>loadImageDimensions\<close> creates an \<^verbatim>\<open>Image\<close>, sets its source and returns a promise that
  is resolved by exactly one of the two handlers; it is never rejected. The event the
  browser fires is the second argument here. Dividing by a natural height of zero gives
  \<^verbatim>\<open>Infinity\<close> or \<^verbatim>\<open>NaN\<close> in JavaScript.
\<close>

datatype image_event =
    onload nat nat  \<comment> \<open>\<^verbatim>\<open>img.naturalWidth\<close> and \<^verbatim>\<open>img.naturalHeight\<close>\<close>
  | onerror

fun loadImageDimensions :: "ImageFile \<Rightarrow> image_event \<Rightarrow> js_fault + ImageWithDimensions" where
  "loadImageDimensions imageFile (onload naturalWidth naturalHeight) =
     (if naturalHeight = 0 then Inl NonFinite
      else Inr (ImageFile.extend imageFile
             (ImageWithDimensions.fields naturalWidth naturalHeight
                (fl (rat_of_nat naturalWidth / rat_of_nat naturalHeight)))))"
| "loadImageDimensions imageFile onerror =
     Inr (ImageFile.extend imageFile (ImageWithDimensions.fields 300 200 (3 / 2)))"

section \<open>The waterfall layout\<close>

definition gap :: int where
  "gap = 16"

text \<open>\<^verbatim>\<open>Math.round\<close> rounds a double to the nearest integer, a half upwards.\<close>

definition Math_round :: "rat \<Rightarrow> int" where
  "Math_round x = \<lfloor>x + 1 / 2\<rfloor>"

text \<open>
  \<^verbatim>\<open>Math.min(...xs)\<close> and \<^verbatim>\<open>Math.max(...xs)\<close> of a non-empty array are its least and
  greatest element; of an empty array they are \<^verbatim>\<open>Infinity\<close> and \<^verbatim>\<open>-Infinity\<close>, which the
  callers below return as \<^const>\<open>NonFinite\<close> before they get here.
\<close>

definition Math_min :: "int list \<Rightarrow> int" where
  "Math_min xs = Min (set xs)"

definition Math_max :: "int list \<Rightarrow> int" where
  "Math_max xs = Max (set xs)"

text \<open>
  \<^verbatim>\<open>xs.indexOf(v)\<close> is the first index that holds \<^verbatim>\<open>v\<close>. Where \<^verbatim>\<open>v\<close> does not occur
  JavaScript answers \<^verbatim>\<open>-1\<close> and this function \<open>length xs\<close>: both are outside the array.
\<close>

fun indexOf :: "int list \<Rightarrow> int \<Rightarrow> nat" where
  "indexOf [] v = 0"
| "indexOf (x # xs) v = (if x = v then 0 else Suc (indexOf xs v))"

text \<open>
  The width of the container: the viewport less 32 pixels of padding, capped at 1280
  pixels (\<^verbatim>\<open>max-w-7xl\<close>) outside the fullscreen mode. The source reads
  \<^verbatim>\<open>window.innerWidth\<close> and the state \<^verbatim>\<open>isFullscreen\<close>; both are arguments here.
\<close>

definition containerMaxWidth :: "bool \<Rightarrow> int \<Rightarrow> int" where
  "containerMaxWidth isFullscreen innerWidth =
     (if isFullscreen then innerWidth - 32
      else let viewportWidth = innerWidth;
               maxContainerWidth = 1280;
               actualMaxWidth = min (viewportWidth - 32) maxContainerWidth
           in actualMaxWidth)"

definition imageWidthOf :: "bool \<Rightarrow> int \<Rightarrow> int \<Rightarrow> int" where
  "imageWidthOf isFullscreen innerWidth columnCount =
     (let availableWidth = containerMaxWidth isFullscreen innerWidth - gap * (columnCount - 1)
      in availableWidth div columnCount)"

text \<open>
  The body of \<^verbatim>\<open>images.map\<close>: one image is placed on the shortest column and the
  array \<^verbatim>\<open>columnHeights\<close> is updated in place. The function returns the positioned
  images together with the final \<^verbatim>\<open>columnHeights\<close>, which the source drops.
\<close>

fun placeImages ::
  "int \<Rightarrow> int list \<Rightarrow> ImageWithDimensions list \<Rightarrow> PositionedImage list \<times> int list" where
  "placeImages imageWidth columnHeights [] = ([], columnHeights)"
| "placeImages imageWidth columnHeights (img # images) =
     (let shortestColumnIndex = indexOf columnHeights (Math_min columnHeights);
          calculatedHeight = Math_round (fl (of_int imageWidth / aspectRatio img));
          totalCardHeight = calculatedHeight;
          positionedImage = ImageWithDimensions.extend img
            (PositionedImage.fields shortestColumnIndex (columnHeights ! shortestColumnIndex)
               totalCardHeight imageWidth);
          columnHeights' = columnHeights[shortestColumnIndex :=
            columnHeights ! shortestColumnIndex + (totalCardHeight + gap)];
          rest = placeImages imageWidth columnHeights' images
      in (positionedImage # fst rest, snd rest))"

text \<open>
  \<^verbatim>\<open>calculateWaterfallLayout\<close>. With no column the shortest column is index \<^verbatim>\<open>-1\<close>, every
  offset is \<^verbatim>\<open>undefined\<close> or \<^verbatim>\<open>NaN\<close> and the width is infinite; with an aspect ratio of
  zero the height is infinite or \<^verbatim>\<open>NaN\<close>.
\<close>

definition calculateWaterfallLayout ::
  "bool \<Rightarrow> int \<Rightarrow> ImageWithDimensions list \<Rightarrow> int \<Rightarrow> js_fault + PositionedImage list" where
  "calculateWaterfallLayout isFullscreen innerWidth images columnCount =
     (if images = [] then Inr []
      else if columnCount < 0 then Inl RangeError
      else if columnCount = 0 \<or> (\<exists>img \<in> set images. aspectRatio img = 0) then Inl NonFinite
      else let imageWidth = imageWidthOf isFullscreen innerWidth columnCount;
               columnHeights = replicate (nat columnCount) 0
           in Inr (fst (placeImages imageWidth columnHeights images)))"

text \<open>
  The array \<^verbatim>\<open>columnHeights\<close> as it stands when \<^verbatim>\<open>images\<close> have been placed. It is local
  to the source function; the claims about the accumulators are stated on it.
\<close>

definition columnHeightsAfter :: "bool \<Rightarrow> int \<Rightarrow> ImageWithDimensions list \<Rightarrow> int \<Rightarrow> int list" where
  "columnHeightsAfter isFullscreen innerWidth images columnCount =
     snd (placeImages (imageWidthOf isFullscreen innerWidth columnCount)
            (replicate (nat columnCount) 0) images)"

section \<open>The size of the container\<close>

text \<open>
  \<^verbatim>\<open>containerHeight\<close> recomputes the column heights from the positioned images: the
  bottom edge \<^verbatim>\<open>top + calculatedHeight\<close> of the lowest image of each column. A column
  index outside the array reads \<^verbatim>\<open>undefined\<close>, the comparison is false and nothing is
  written.
\<close>

definition raiseColumn :: "PositionedImage \<Rightarrow> int list \<Rightarrow> int list" where
  "raiseColumn img columnHeights =
     (let newHeight = top' img + calculatedHeight img
      in if column img < length columnHeights \<and> newHeight > columnHeights ! column img
         then columnHeights[column img := newHeight]
         else columnHeights)"

definition containerHeight :: "PositionedImage list \<Rightarrow> int \<Rightarrow> js_fault + int" where
  "containerHeight positionedImages columnCount =
     (if positionedImages = [] then Inr 0
      else if columnCount < 0 then Inl RangeError
      else if columnCount = 0 then Inl NonFinite
      else let columnHeights = fold raiseColumn positionedImages (replicate (nat columnCount) 0)
           in Inr (Math_max columnHeights))"

text \<open>\<^verbatim>\<open>containerWidth\<close>: a width of zero is falsy, and 300 takes its place.\<close>

definition containerWidth :: "PositionedImage list \<Rightarrow> int \<Rightarrow> int" where
  "containerWidth positionedImages columnCount =
     (if positionedImages = [] then 0
      else let imageWidth = (if calculatedWidth (hd positionedImages) = 0 then 300
                             else calculatedWidth (hd positionedImages))
           in imageWidth * columnCount + gap * (columnCount - 1))"

section \<open>Shuffling\<close>

text \<open>
  \<^verbatim>\<open>shuffleImages\<close> copies the list and runs the Fisher-Yates loop from the last index
  down to 1. \<^verbatim>\<open>Math.random()\<close> is called once in every round; \<open>random i\<close> is the
  number it returns in the round of index \<open>i\<close>, a number of the interval from 0
  (included) to 1 (excluded). The destructuring assignment reads both elements before
  it writes them.
\<close>

fun shuffleLoop :: "(nat \<Rightarrow> rat) \<Rightarrow> nat \<Rightarrow> 'a list \<Rightarrow> 'a list" where
  "shuffleLoop random 0 shuffled = shuffled"
| "shuffleLoop random (Suc n) shuffled =
     (let i = Suc n;
          j = nat \<lfloor>random i * (of_nat i + 1)\<rfloor>
      in shuffleLoop random n (shuffled[i := shuffled ! j, j := shuffled ! i]))"

definition shuffleImages :: "(nat \<Rightarrow> rat) \<Rightarrow> ImageFile list \<Rightarrow> ImageFile list" where
  "shuffleImages random prev = shuffleLoop random (length prev - 1) prev"

section \<open>Notions for the statements\<close>

text \<open>
  The index that \<^verbatim>\<open>columnHeights.indexOf(Math.min(...columnHeights))\<close> selects.
\<close>

definition shortest :: "int list \<Rightarrow> nat" where
  "shortest hs = indexOf hs (Math_min hs)"

text \<open>
  What one image adds to its column, and the four numbers that place an image on the
  page.
\<close>

definition placedHeight :: "PositionedImage \<Rightarrow> int" where
  "placedHeight p = calculatedHeight p + gap"

definition geometry :: "PositionedImage \<Rightarrow> nat \<times> int \<times> int \<times> int" where
  "geometry p = (column p, top' p, calculatedHeight p, calculatedWidth p)"

text \<open>
  The relation between the array of \<^verbatim>\<open>calculateWaterfallLayout\<close> and the array that
  \<^verbatim>\<open>containerHeight\<close> rebuilds: a column without an image is 0 in both, and otherwise the
  second lacks the gap that follows the last image.
\<close>

definition bottoms :: "int list \<Rightarrow> int list \<Rightarrow> bool" where
  "bottoms hs ms \<longleftrightarrow> length ms = length hs \<and>
     (\<forall>c < length hs. (hs ! c = 0 \<and> ms ! c = 0) \<or> (gap \<le> hs ! c \<and> ms ! c = hs ! c - gap))"

section \<open>Example galleries\<close>

text \<open>
  Two columns in a container of 632 pixels (a viewport of 664 pixels), and three images
  of the aspect ratios 2, 1 and 1.
\<close>

definition exampleFile :: "string \<Rightarrow> ImageFile" where
  "exampleFile n = \<lparr>id' = n, url = ''blob:'' @ n, name = n @ ''.png'', size' = 1000,
     type' = ''image/png'', dateModified = 0\<rparr>"

definition exampleImage :: "string \<Rightarrow> nat \<Rightarrow> nat \<Rightarrow> ImageWithDimensions" where
  "exampleImage n w h =
     ImageFile.extend (exampleFile n)
       (ImageWithDimensions.fields w h (fl (rat_of_nat w / rat_of_nat h)))"

definition exampleImages :: "ImageWithDimensions list" where
  "exampleImages = [exampleImage ''a'' 600 300, exampleImage ''b'' 400 400, exampleImage ''c'' 500 500]"

definition examplePositioned :: "PositionedImage list" where
  "examplePositioned =
     [ImageWithDimensions.extend (exampleImage ''a'' 600 300) (PositionedImage.fields 0 0 154 308),
      ImageWithDimensions.extend (exampleImage ''b'' 400 400) (PositionedImage.fields 1 0 308 308),
      ImageWithDimensions.extend (exampleImage ''c'' 500 500) (PositionedImage.fields 0 170 308 308)]"

text \<open>
  Ten columns in a viewport of 100 pixels: the container is 68 pixels wide, less than
  the nine gaps, and the width of a column is negative.
\<close>

definition narrowImages :: "ImageWithDimensions list" where
  "narrowImages = [exampleImage ''a'' 100 400, exampleImage ''b'' 100 400, exampleImage ''c'' 100 400]"

definition narrowPositioned :: "PositionedImage list" where
  "narrowPositioned =
     [ImageWithDimensions.extend (exampleImage ''a'' 100 400) (PositionedImage.fields 0 0 (- 32) (- 8)),
      ImageWithDimensions.extend (exampleImage ''b'' 100 400) (PositionedImage.fields 0 (- 16) (- 32) (- 8)),
      ImageWithDimensions.extend (exampleImage ''c'' 100 400) (PositionedImage.fields 0 (- 32) (- 32) (- 8))]"




text \<open>
  Three images on two columns of 308 pixels. In doubles, 112 / 338 is slightly above the
  exact ratio and 308 divided by it is 929.4999999999999, where the exact quotient is
  929.5; and 308 divided by the double 8 / 5 is 192.5, where the exact quotient by that
  double is below 192.5.
\<close>

definition roundingImages :: "ImageWithDimensions list" where
  "roundingImages = [exampleImage ''a'' 112 338, exampleImage ''b'' 308 929, exampleImage ''c'' 8 5]"

definition roundingPositioned :: "PositionedImage list" where
  "roundingPositioned =
     [ImageWithDimensions.extend (exampleImage ''a'' 112 338) (PositionedImage.fields 0 0 929 308),
      ImageWithDimensions.extend (exampleImage ''b'' 308 929) (PositionedImage.fields 1 0 929 308),
      ImageWithDimensions.extend (exampleImage ''c'' 8 5) (PositionedImage.fields 0 945 193 308)]"

text \<open>A random source that always answers one half.\<close>

definition halves :: "nat \<Rightarrow> rat" where
  "halves i = 1 / 2"

section \<open>Records\<close>

lemmas record_defs =
  ImageFile.defs ImageWithDimensions.defs PositionedImage.defs

section \<open>Rounding to a double\<close>

lemma roundTiesToEven_nonneg: "0 \<le> y \<Longrightarrow> 0 \<le> roundTiesToEven y"
  by (simp add: roundTiesToEven_def Let_def)

lemma roundTiesToEven_near: "\<bar>of_int (roundTiesToEven y) - y\<bar> \<le> 1 / 2"
proof -
  have "of_int \<lfloor>y\<rfloor> \<le> y" and "y < of_int \<lfloor>y\<rfloor> + 1"
    by linarith+
  then show ?thesis
    by (auto simp: roundTiesToEven_def Let_def abs_le_iff)
qed

lemma fl_nonneg: "0 \<le> x \<Longrightarrow> 0 \<le> fl x"
  by (simp add: fl_def Let_def roundTiesToEven_nonneg)

lemma exponent_le:
  assumes "x \<noteq> 0"
  shows "2 powi exponent x \<le> \<bar>x\<bar>"
proof -
  obtain n d where q: "quotient_of \<bar>x\<bar> = (n, d)" by (cases "quotient_of \<bar>x\<bar>")
  then have x: "\<bar>x\<bar> = of_int n / of_int d" and d: "0 < d"
    by (simp_all add: quotient_of_div quotient_of_denom_pos)
  from assms have "0 < \<bar>x\<bar>" by simp
  with x have "0 < rat_of_int n / rat_of_int d" by simp
  with d have n: "0 < n" by (simp add: zero_less_divide_iff)
  let ?e = "bitlen n - bitlen d"
  show ?thesis
  proof (cases "(2::rat) powi ?e \<le> \<bar>x\<bar>")
    case True
    with q show ?thesis by (simp add: exponent_def)
  next
    case False
    with q have e: "exponent x = ?e - 1" by (simp add: exponent_def)
    from bitlen_bounds [OF n] have bn: "2 ^ nat (bitlen n - 1) \<le> n" by simp
    from bitlen_bounds [OF d] have bd: "d < 2 ^ nat (bitlen d)" by simp
    from n have n1: "0 \<le> bitlen n - 1"
      using bitlen_eq_zero_iff [of n] bitlen_nonneg [of n] by linarith
    have "(2::rat) powi (?e - 1) = 2 powi (bitlen n - 1) / 2 powi bitlen d"
      using power_int_diff [of "2::rat" "bitlen n - 1" "bitlen d"] by (simp add: algebra_simps)
    also have "\<dots> = 2 ^ nat (bitlen n - 1) / 2 ^ nat (bitlen d)"
      using n1 bitlen_nonneg [of d] by (simp add: power_int_def)
    also have "\<dots> \<le> of_int n / of_int d"
    proof -
      from bn have "rat_of_int (2 ^ nat (bitlen n - 1)) \<le> of_int n" by (simp only: of_int_le_iff)
      then have a: "(2::rat) ^ nat (bitlen n - 1) \<le> of_int n" by simp
      from bd have "rat_of_int d \<le> of_int (2 ^ nat (bitlen d))" by (simp only: of_int_le_iff)
      then have b: "rat_of_int d \<le> 2 ^ nat (bitlen d)" by simp
      from a b d n show ?thesis by (intro frac_le) simp_all
    qed
    finally show ?thesis using e x by simp
  qed
qed

lemma fl_near: "\<bar>fl x - x\<bar> \<le> \<bar>x\<bar> / 2 ^ 53"
proof (cases "x = 0")
  case True
  then show ?thesis by (simp add: fl_def)
next
  case False
  let ?u = "(2::rat) powi (exponent x - 52)"
  have u: "0 < ?u" by simp
  have "fl x - x = (of_int (roundTiesToEven (x / ?u)) - x / ?u) * ?u"
    using False u by (simp add: fl_def Let_def algebra_simps)
  then have "\<bar>fl x - x\<bar> = \<bar>of_int (roundTiesToEven (x / ?u)) - x / ?u\<bar> * ?u"
    using u by (simp add: abs_mult)
  also have "\<dots> \<le> 1 / 2 * ?u"
    using roundTiesToEven_near [of "x / ?u"] u by (intro mult_right_mono) simp_all
  also have "?u = 2 powi exponent x / 2 ^ 52"
    using power_int_diff [of "2::rat" "exponent x" 52] by simp
  also have "1 / 2 * ((2::rat) powi exponent x / 2 ^ 52) = 2 powi exponent x / 2 ^ 53"
    by simp
  also have "\<dots> \<le> \<bar>x\<bar> / 2 ^ 53"
    using exponent_le [OF False] by (simp add: divide_right_mono)
  finally show ?thesis .
qed

section \<open>The shortest column\<close>

lemma indexOf_less: "v \<in> set xs \<Longrightarrow> indexOf xs v < length xs"
  by (induction xs) auto

lemma indexOf_nth: "v \<in> set xs \<Longrightarrow> xs ! indexOf xs v = v"
  by (induction xs) auto

lemma indexOf_first: "j < indexOf xs v \<Longrightarrow> xs ! j \<noteq> v"
proof (induction xs arbitrary: j)
  case Nil
  then show ?case by simp
next
  case (Cons x xs)
  then show ?case by (cases j) (auto split: if_splits)
qed

lemma Math_min_in: "xs \<noteq> [] \<Longrightarrow> Math_min xs \<in> set xs"
  by (simp add: Math_min_def)

lemma Math_min_le: "j < length xs \<Longrightarrow> Math_min xs \<le> xs ! j"
  by (simp add: Math_min_def)

lemma shortest_less: "hs \<noteq> [] \<Longrightarrow> shortest hs < length hs"
  by (simp add: shortest_def indexOf_less Math_min_in)

lemma shortest_nth: "hs \<noteq> [] \<Longrightarrow> hs ! shortest hs = Math_min hs"
  by (simp add: shortest_def indexOf_nth Math_min_in)

lemma shortest_least: "hs \<noteq> [] \<Longrightarrow> j < length hs \<Longrightarrow> hs ! shortest hs \<le> hs ! j"
  by (simp add: shortest_nth Math_min_le)

lemma shortest_first: "hs \<noteq> [] \<Longrightarrow> j < shortest hs \<Longrightarrow> hs ! shortest hs < hs ! j"
proof -
  assume ne: "hs \<noteq> []" and j: "j < shortest hs"
  from j have "hs ! j \<noteq> Math_min hs"
    unfolding shortest_def by (rule indexOf_first)
  moreover from ne j have "Math_min hs \<le> hs ! j"
    using shortest_less [OF ne] by (simp add: Math_min_le)
  ultimately show ?thesis using ne by (simp add: shortest_nth)
qed

section \<open>The placement loop\<close>

lemma placeImages_length:
  "length (fst (placeImages w hs imgs)) = length imgs"
  by (induction imgs arbitrary: hs) (simp_all add: Let_def)

lemma placeImages_heights_length:
  "length (snd (placeImages w hs imgs)) = length hs"
  by (induction imgs arbitrary: hs) (simp_all add: Let_def)

lemma placeImages_truncate:
  "map ImageWithDimensions.truncate (fst (placeImages w hs imgs)) = imgs"
  by (induction imgs arbitrary: hs) (simp_all add: Let_def record_defs)

lemma placeImages_append:
  "placeImages w hs (xs @ ys) =
     (fst (placeImages w hs xs) @ fst (placeImages w (snd (placeImages w hs xs)) ys),
      snd (placeImages w (snd (placeImages w hs xs)) ys))"
  by (induction xs arbitrary: hs) (simp_all add: Let_def)

lemma placeImages_column:
  "hs \<noteq> [] \<Longrightarrow> p \<in> set (fst (placeImages w hs imgs)) \<Longrightarrow> column p < length hs"
proof (induction imgs arbitrary: hs)
  case Nil
  then show ?case by simp
next
  case (Cons img imgs)
  let ?hs' = "hs[shortest hs := hs ! shortest hs + (Math_round (fl (of_int w / aspectRatio img)) + gap)]"
  from Cons.prems(2) consider
      "column p = shortest hs"
    | "p \<in> set (fst (placeImages w ?hs' imgs))"
    by (auto simp: Let_def shortest_def record_defs)
  then show ?case
  proof cases
    case 1
    then show ?thesis using Cons.prems(1) by (simp add: shortest_less)
  next
    case 2
    moreover from Cons.prems(1) have "?hs' \<noteq> []" by simp
    ultimately have "column p < length ?hs'" by (rule Cons.IH [rotated])
    then show ?thesis by simp
  qed
qed

lemma placeImages_Cons:
  "placeImages w hs (img # imgs) =
     (ImageWithDimensions.extend img
        (PositionedImage.fields (shortest hs) (hs ! shortest hs)
           (Math_round (fl (of_int w / aspectRatio img))) w)
      # fst (placeImages w
               (hs[shortest hs := hs ! shortest hs + (Math_round (fl (of_int w / aspectRatio img)) + gap)])
               imgs),
      snd (placeImages w
               (hs[shortest hs := hs ! shortest hs + (Math_round (fl (of_int w / aspectRatio img)) + gap)])
               imgs))"
  by (simp add: Let_def shortest_def)

declare placeImages.simps(2) [simp del]

lemma extend_fields [simp]:
  "column (ImageWithDimensions.extend img (PositionedImage.fields c t h w)) = c"
  "top' (ImageWithDimensions.extend img (PositionedImage.fields c t h w)) = t"
  "calculatedHeight (ImageWithDimensions.extend img (PositionedImage.fields c t h w)) = h"
  "calculatedWidth (ImageWithDimensions.extend img (PositionedImage.fields c t h w)) = w"
  "aspectRatio (ImageWithDimensions.extend img (PositionedImage.fields c t h w)) = aspectRatio img"
  "ImageWithDimensions.truncate (ImageWithDimensions.extend img (PositionedImage.fields c t h w)) = img"
  by (simp_all add: record_defs)

lemma placeImages_heights:
  "p \<in> set (fst (placeImages w hs imgs)) \<Longrightarrow>
     calculatedWidth p = w \<and> (\<exists>img \<in> set imgs. calculatedHeight p = Math_round (fl (of_int w / aspectRatio img)))"
proof (induction imgs arbitrary: hs)
  case Nil
  then show ?case by (simp add: placeImages.simps)
next
  case (Cons img imgs)
  then show ?case by (auto simp: placeImages_Cons)
qed

lemma placeImages_geometry:
  "map aspectRatio imgs = map aspectRatio imgs' \<Longrightarrow>
     map geometry (fst (placeImages w hs imgs)) = map geometry (fst (placeImages w hs imgs'))"
proof (induction imgs arbitrary: imgs' hs)
  case Nil
  then show ?case by (simp add: placeImages.simps)
next
  case (Cons img imgs)
  then obtain img' rest where imgs': "imgs' = img' # rest"
    and a: "aspectRatio img = aspectRatio img'"
    and r: "map aspectRatio imgs = map aspectRatio rest"
    by (cases imgs') auto
  from Cons.IH [OF r] a show ?case
    by (simp add: imgs' placeImages_Cons geometry_def)
qed

section \<open>When the layout returns\<close>

lemma layout_Inr:
  assumes "calculateWaterfallLayout fs iw imgs k = Inr ps" and "imgs \<noteq> []"
  shows "1 \<le> k" and "\<forall>img \<in> set imgs. aspectRatio img \<noteq> 0"
    and "ps = fst (placeImages (imageWidthOf fs iw k) (replicate (nat k) 0) imgs)"
  using assms by (auto simp: calculateWaterfallLayout_def Let_def split: if_splits)

lemma layout_total:
  assumes "1 \<le> k" and "\<forall>img \<in> set imgs. aspectRatio img \<noteq> 0"
  shows "calculateWaterfallLayout fs iw imgs k =
     Inr (fst (placeImages (imageWidthOf fs iw k) (replicate (nat k) 0) imgs))"
  using assms by (auto simp: calculateWaterfallLayout_def Let_def placeImages.simps)

lemma replicate_ne: "1 \<le> k \<Longrightarrow> replicate (nat k) (0::int) \<noteq> []"
  by auto



lemma layout_geometry:
  assumes "map aspectRatio imgs = map aspectRatio imgs'"
  shows "map_sum id (map geometry) (calculateWaterfallLayout fs iw imgs k) =
         map_sum id (map geometry) (calculateWaterfallLayout fs iw imgs' k)"
proof -
  from assms have "length imgs = length imgs'"
    by (rule map_eq_imp_length_eq)
  then have e: "imgs = [] \<longleftrightarrow> imgs' = []" by auto
  have z: "(\<exists>img \<in> set xs. aspectRatio img = 0) \<longleftrightarrow> 0 \<in> set (map aspectRatio xs)" for xs
    by force
  from assms have "(\<exists>img \<in> set imgs. aspectRatio img = 0) \<longleftrightarrow> (\<exists>img \<in> set imgs'. aspectRatio img = 0)"
    unfolding z by simp
  with e placeImages_geometry [OF assms] show ?thesis
    by (simp add: calculateWaterfallLayout_def Let_def)
qed

lemma Math_round_nonneg: "0 \<le> x \<Longrightarrow> 0 \<le> Math_round x"
  by (simp add: Math_round_def)

lemma imageWidthOf_nonneg:
  "1 \<le> k \<Longrightarrow> gap * (k - 1) \<le> containerMaxWidth fs iw \<Longrightarrow> 0 \<le> imageWidthOf fs iw k"
  by (simp add: imageWidthOf_def pos_imp_zdiv_nonneg_iff)

lemma heights_nonneg:
  assumes layout: "calculateWaterfallLayout fs iw imgs k = Inr ps"
    and wide: "gap * (k - 1) \<le> containerMaxWidth fs iw"
    and pos: "\<forall>img \<in> set imgs. 0 < aspectRatio img"
    and p: "p \<in> set ps"
  shows "0 \<le> calculatedHeight p"
proof -
  from p layout have ne: "imgs \<noteq> []"
    by (auto simp: calculateWaterfallLayout_def)
  from layout_Inr [OF layout ne]
  have k: "1 \<le> k" and ps: "ps = fst (placeImages (imageWidthOf fs iw k) (replicate (nat k) 0) imgs)"
    by simp_all
  from p ps placeImages_heights obtain img where
    img: "img \<in> set imgs"
      "calculatedHeight p = Math_round (fl (of_int (imageWidthOf fs iw k) / aspectRatio img))"
    by blast
  from k wide have "0 \<le> imageWidthOf fs iw k" by (rule imageWidthOf_nonneg)
  with pos img(1) have "0 \<le> rat_of_int (imageWidthOf fs iw k) / aspectRatio img"
    by (simp add: order_less_imp_le)
  then have "0 \<le> fl (rat_of_int (imageWidthOf fs iw k) / aspectRatio img)"
    by (rule fl_nonneg)
  with img(2) show ?thesis by (simp add: Math_round_nonneg)
qed

section \<open>Evaluating the examples\<close>

lemma aspectRatio_exampleImage:
  "aspectRatio (exampleImage n w h) = fl (rat_of_nat w / rat_of_nat h)"
  by (simp add: exampleImage_def record_defs)

lemma example_ratios:
  "aspectRatio (exampleImage n 600 300) \<noteq> 0"
  "aspectRatio (exampleImage n 400 400) \<noteq> 0"
  "aspectRatio (exampleImage n 500 500) \<noteq> 0"
  "aspectRatio (exampleImage n 600 400) \<noteq> 0"
  "aspectRatio (exampleImage n 112 338) \<noteq> 0"
  "aspectRatio (exampleImage n 308 929) \<noteq> 0"
  "aspectRatio (exampleImage n 8 5) \<noteq> 0"
  "aspectRatio (exampleImage n 100 400) \<noteq> 0"
  "aspectRatio (exampleImage n 308 100) \<noteq> 0"
  "aspectRatio (exampleImage n 308 210) \<noteq> 0"
  "aspectRatio (exampleImage n 100 100) \<noteq> 0"
  unfolding aspectRatio_exampleImage of_nat_numeral by code_simp+

text \<open>The heights in a column of 308 pixels.\<close>

lemma heights_308:
  "Math_round (fl (308 / aspectRatio (exampleImage n 600 300))) = 154"
  "Math_round (fl (308 / aspectRatio (exampleImage n 400 400))) = 308"
  "Math_round (fl (308 / aspectRatio (exampleImage n 500 500))) = 308"
  "Math_round (fl (308 / aspectRatio (exampleImage n 600 400))) = 205"
  "Math_round (fl (308 / aspectRatio (exampleImage n 112 338))) = 929"
  "Math_round (fl (308 / aspectRatio (exampleImage n 308 929))) = 929"
  "Math_round (fl (308 / aspectRatio (exampleImage n 8 5))) = 193"
  "Math_round (fl (308 / aspectRatio (exampleImage n 308 100))) = 100"
  "Math_round (fl (308 / aspectRatio (exampleImage n 308 210))) = 210"
  "Math_round (fl (308 / aspectRatio (exampleImage n 100 100))) = 308"
  unfolding aspectRatio_exampleImage of_nat_numeral by code_simp+

text \<open>The heights in a column of 624 pixels, and in one of -8 pixels.\<close>

lemma heights_624:
  "Math_round (fl (624 / aspectRatio (exampleImage n 308 100))) = 203"
  "Math_round (fl (624 / aspectRatio (exampleImage n 308 210))) = 425"
  "Math_round (fl (624 / aspectRatio (exampleImage n 100 100))) = 624"
  unfolding aspectRatio_exampleImage of_nat_numeral by code_simp+

lemma heights_narrow:
  "Math_round (fl (- (8 / aspectRatio (exampleImage n 100 400)))) = - 32"
  unfolding aspectRatio_exampleImage of_nat_numeral by code_simp

lemma quotient_8_5:
  "fl (308 / aspectRatio (exampleImage n 8 5)) = 385 / 2"
  unfolding aspectRatio_exampleImage of_nat_numeral by code_simp

lemma ratio_600_400:
  "aspectRatio (exampleImage n 600 400) = 3 / 2"
  unfolding aspectRatio_exampleImage of_nat_numeral by code_simp

lemma zeros:
  "replicate 2 (0::int) = [0, 0]"
  "replicate 10 (0::int) = [0, 0, 0, 0, 0, 0, 0, 0, 0, 0]"
  by code_simp+

lemmas layout_eval =
  calculateWaterfallLayout_def columnHeightsAfter_def imageWidthOf_def containerMaxWidth_def
  placeImages_Cons shortest_def gap_def Math_min_def Let_def zeros
  example_ratios heights_308 heights_624 heights_narrow

lemma example_layout:
  "calculateWaterfallLayout False 664 exampleImages 2 = Inr examplePositioned"
  by (simp add: layout_eval exampleImages_def examplePositioned_def cong: let_weak_cong)

lemma example_columnHeights:
  "columnHeightsAfter False 664 exampleImages 2 = [494, 324]"
  by (simp add: layout_eval exampleImages_def cong: let_weak_cong)

lemma example_containerHeight:
  "containerHeight examplePositioned 2 = Inr 478"
  by (simp add: containerHeight_def raiseColumn_def examplePositioned_def Math_max_def zeros)

lemma rounding_layout:
  "calculateWaterfallLayout False 664 roundingImages 2 = Inr roundingPositioned"
  by (simp add: layout_eval roundingImages_def roundingPositioned_def cong: let_weak_cong)

lemma narrow_layout:
  "calculateWaterfallLayout False 100 narrowImages 10 = Inr narrowPositioned"
  by (simp add: layout_eval narrowImages_def narrowPositioned_def cong: let_weak_cong)

lemma narrow_columnHeights:
  "columnHeightsAfter False 100 narrowImages 10 = [- 48, 0, 0, 0, 0, 0, 0, 0, 0, 0]"
  by (simp add: layout_eval narrowImages_def cong: let_weak_cong)



section \<open>The empty gallery\<close>

text \<open>
  C8. For the empty sequence of images the layout is the empty sequence, the width and
  the height of the container are 0, and no fault is returned.
\<close>

theorem empty_layout:
  "calculateWaterfallLayout isFullscreen innerWidth [] columnCount = Inr []
   \<and> containerWidth [] columnCount = 0
   \<and> containerHeight [] columnCount = Inr 0"
  by (simp add: calculateWaterfallLayout_def containerWidth_def containerHeight_def)

section \<open>One entry for every image\<close>

text \<open>
  C3. For a non-empty sequence of images and a column count of at least 1 (the slider
  and the hotkeys give 1 to 10) the layout returns one positioned image for every
  input image, in the order of the input, and every column index is below the column
  count.
\<close>

theorem layout_places_every_image:
  assumes "1 \<le> columnCount" and "images \<noteq> []"
    and "\<forall>img \<in> set images. aspectRatio img \<noteq> 0"
  shows "\<exists>positioned.
      calculateWaterfallLayout isFullscreen innerWidth images columnCount = Inr positioned
      \<and> length positioned = length images
      \<and> map ImageWithDimensions.truncate positioned = images
      \<and> (\<forall>p \<in> set positioned. int (column p) < columnCount)"
proof -
  let ?ps = "fst (placeImages (imageWidthOf isFullscreen innerWidth columnCount)
                (replicate (nat columnCount) 0) images)"
  have "calculateWaterfallLayout isFullscreen innerWidth images columnCount = Inr ?ps"
    using assms(1,3) by (rule layout_total)
  moreover have "length ?ps = length images"
    by (rule placeImages_length)
  moreover have "map ImageWithDimensions.truncate ?ps = images"
    by (rule placeImages_truncate)
  moreover have "\<forall>p \<in> set ?ps. int (column p) < columnCount"
  proof
    fix p assume "p \<in> set ?ps"
    with replicate_ne [OF assms(1)]
    have "column p < length (replicate (nat columnCount) (0::int))"
      by (rule placeImages_column)
    with assms(1) show "int (column p) < columnCount" by simp
  qed
  ultimately show ?thesis by blast
qed

text \<open>The worked example satisfies the hypotheses.\<close>

theorem layout_places_every_image_witness:
  "(1::int) \<le> 2 \<and> exampleImages \<noteq> [] \<and> 0 \<notin> set (map aspectRatio exampleImages)
   \<and> calculateWaterfallLayout False 664 exampleImages 2 = Inr examplePositioned
   \<and> length examplePositioned = length exampleImages
   \<and> map ImageWithDimensions.truncate examplePositioned = exampleImages
   \<and> list_all (\<lambda>p. int (column p) < 2) examplePositioned"
proof -
  have h1: "(1::int) \<le> 2" by simp
  have h2: "exampleImages \<noteq> []" by (simp add: exampleImages_def)
  have h3: "0 \<notin> set (map aspectRatio exampleImages)"
    by (simp add: exampleImages_def example_ratios)
  then have h3': "\<forall>img \<in> set exampleImages. aspectRatio img \<noteq> 0" by auto
  from layout_places_every_image [OF h1 h2 h3', of False 664]
  show ?thesis using h1 h2 h3 by (auto simp: example_layout list_all_iff)
qed

section \<open>The placement of one image\<close>

text \<open>
  C2. The image of index \<open>i\<close> goes to the column that is shortest once the images
  before it have been placed, the first one among equals. Its width is the width of a
  column, \<open>(containerMaxWidth - gap * (columnCount - 1)) div columnCount\<close>, its height
  is that width divided by its aspect ratio, as doubles are divided, and rounded to the
  nearest integer, a half upwards; its offset is the height of the column before the
  placement, and the column grows by the height and the gap.
\<close>

theorem placement_rule:
  assumes layout: "calculateWaterfallLayout isFullscreen innerWidth images columnCount = Inr positioned"
    and i: "i < length images"
  shows "let columnHeights = columnHeightsAfter isFullscreen innerWidth (take i images) columnCount;
             p = positioned ! i
         in length columnHeights = nat columnCount
          \<and> column p < length columnHeights
          \<and> (\<forall>j < length columnHeights. columnHeights ! column p \<le> columnHeights ! j)
          \<and> (\<forall>j < column p. columnHeights ! column p < columnHeights ! j)
          \<and> calculatedWidth p =
              (containerMaxWidth isFullscreen innerWidth - gap * (columnCount - 1)) div columnCount
          \<and> calculatedHeight p =
              \<lfloor>fl (of_int (calculatedWidth p) / aspectRatio (images ! i)) + 1 / 2\<rfloor>
          \<and> top' p = columnHeights ! column p
          \<and> columnHeightsAfter isFullscreen innerWidth (take (Suc i) images) columnCount =
              columnHeights[column p := columnHeights ! column p + (calculatedHeight p + gap)]"
proof -
  let ?w = "imageWidthOf isFullscreen innerWidth columnCount"
  let ?zs = "replicate (nat columnCount) (0::int)"
  let ?hs = "columnHeightsAfter isFullscreen innerWidth (take i images) columnCount"
  let ?img = "images ! i"
  let ?h = "Math_round (fl (of_int ?w / aspectRatio ?img))"
  let ?p = "ImageWithDimensions.extend ?img
              (PositionedImage.fields (shortest ?hs) (?hs ! shortest ?hs) ?h ?w)"
  from i have ne: "images \<noteq> []" by auto
  from layout_Inr [OF layout ne]
  have k: "1 \<le> columnCount" and ps: "positioned = fst (placeImages ?w ?zs images)"
    by simp_all
  have hs: "?hs = snd (placeImages ?w ?zs (take i images))"
    by (simp add: columnHeightsAfter_def)
  have len: "length ?hs = nat columnCount"
    by (simp add: hs placeImages_heights_length)
  with k have hne: "?hs \<noteq> []" by auto
  from i have split: "images = take i images @ ?img # drop (Suc i) images"
    by (rule id_take_nth_drop)
  have "positioned = fst (placeImages ?w ?zs (take i images @ ?img # drop (Suc i) images))"
    using ps split by simp
  then have "positioned = fst (placeImages ?w ?zs (take i images))
      @ fst (placeImages ?w ?hs (?img # drop (Suc i) images))"
    by (simp add: placeImages_append hs)
  moreover from i have "length (fst (placeImages ?w ?zs (take i images))) = i"
    by (simp add: placeImages_length)
  ultimately have "positioned ! i = fst (placeImages ?w ?hs (?img # drop (Suc i) images)) ! 0"
    by (metis add.right_neutral nth_append_length_plus)
  then have p: "positioned ! i = ?p"
    by (simp add: placeImages_Cons)
  from i have "take (Suc i) images = take i images @ [?img]"
    by (rule take_Suc_conv_app_nth)
  then have "columnHeightsAfter isFullscreen innerWidth (take (Suc i) images) columnCount
      = snd (placeImages ?w ?hs [?img])"
    by (simp add: columnHeightsAfter_def placeImages_append)
  then have after: "columnHeightsAfter isFullscreen innerWidth (take (Suc i) images) columnCount
      = ?hs[shortest ?hs := ?hs ! shortest ?hs + (?h + gap)]"
    by (simp add: placeImages_Cons placeImages.simps(1))
  have width: "?w = (containerMaxWidth isFullscreen innerWidth - gap * (columnCount - 1)) div columnCount"
    by (simp add: imageWidthOf_def)
  have least: "\<forall>j < length ?hs. ?hs ! shortest ?hs \<le> ?hs ! j"
    using hne by (simp add: shortest_least)
  have first: "\<forall>j < shortest ?hs. ?hs ! shortest ?hs < ?hs ! j"
    using hne by (simp add: shortest_first)
  from len shortest_less [OF hne] least first width after
  show ?thesis
    unfolding Let_def p by (simp add: Math_round_def del: One_nat_def)
qed

text \<open>
  In the gallery of the rounding example the first two columns are level at 945, the
  third image goes to column 0, and its quotient 192.5 is rounded to 193.
\<close>

theorem placement_rule_witness:
  "calculateWaterfallLayout False 664 roundingImages 2 = Inr roundingPositioned
   \<and> (2::nat) < length roundingImages
   \<and> columnHeightsAfter False 664 (take 2 roundingImages) 2 = [945, 945]
   \<and> column (roundingPositioned ! 2) = 0
   \<and> calculatedWidth (roundingPositioned ! 2) = 308
   \<and> fl (308 / aspectRatio (roundingImages ! 2)) = 385 / 2
   \<and> calculatedHeight (roundingPositioned ! 2) = 193
   \<and> top' (roundingPositioned ! 2) = 945
   \<and> columnHeightsAfter False 664 (take (Suc 2) roundingImages) 2 = [1154, 945]"
proof -
  have i: "(2::nat) < length roundingImages" by (simp add: roundingImages_def)
  have hs: "columnHeightsAfter False 664 (take 2 roundingImages) 2 = [945, 945]"
    by (simp add: layout_eval roundingImages_def cong: let_weak_cong)
  have q: "fl (308 / aspectRatio (roundingImages ! 2)) = 385 / 2"
    by (simp add: roundingImages_def quotient_8_5)
  have p: "column (roundingPositioned ! 2) = 0" "calculatedWidth (roundingPositioned ! 2) = 308"
    "top' (roundingPositioned ! 2) = 945"
    by (simp_all add: roundingPositioned_def)
  from placement_rule [OF rounding_layout i]
  have "calculatedHeight (roundingPositioned ! 2) = 193
      \<and> columnHeightsAfter False 664 (take (Suc 2) roundingImages) 2 = [1154, 945]"
    unfolding Let_def hs p by (simp add: q gap_def)
  with i hs p q show ?thesis by (simp add: rounding_layout)
qed

section \<open>The height of the container\<close>

text \<open>
  C1, as the claim states it, fails on the worked example: the final column heights are
  494 and 324, and \<^verbatim>\<open>containerHeight\<close> is 478, the bottom edge of the lowest image.
\<close>

theorem containerHeight_counterexample:
  "calculateWaterfallLayout False 664 exampleImages 2 = Inr examplePositioned
   \<and> columnHeightsAfter False 664 exampleImages 2 = [494, 324]
   \<and> Math_max (columnHeightsAfter False 664 exampleImages 2) = 494
   \<and> containerHeight examplePositioned 2 = Inr 478
   \<and> containerHeight examplePositioned 2 \<noteq> Inr (Math_max (columnHeightsAfter False 664 exampleImages 2))"
  by (simp add: example_layout example_columnHeights example_containerHeight Math_max_def)

lemma bottoms_replicate: "bottoms (replicate n 0) (replicate n 0)"
  by (simp add: bottoms_def)

lemma bottoms_step:
  assumes inv: "bottoms hs ms" and c: "c < length hs" and h: "0 \<le> h"
  shows "bottoms (hs[c := hs ! c + (h + gap)])
           (raiseColumn (ImageWithDimensions.extend img (PositionedImage.fields c (hs ! c) h w)) ms)"
proof -
  from inv have len: "length ms = length hs"
    and cols: "\<And>k. k < length hs \<Longrightarrow> (hs ! k = 0 \<and> ms ! k = 0) \<or> (gap \<le> hs ! k \<and> ms ! k = hs ! k - gap)"
    by (simp_all add: bottoms_def)
  have g: "0 < gap" by (simp add: gap_def)
  from cols [OF c] g have c0: "0 \<le> hs ! c" by auto
  show ?thesis
  proof (cases "hs ! c + h > ms ! c")
    case True
    with c len have "raiseColumn (ImageWithDimensions.extend img (PositionedImage.fields c (hs ! c) h w)) ms
        = ms[c := hs ! c + h]"
      by (simp add: raiseColumn_def)
    moreover have "bottoms (hs[c := hs ! c + (h + gap)]) (ms[c := hs ! c + h])"
      unfolding bottoms_def
    proof (intro conjI allI impI)
      show "length (ms[c := hs ! c + h]) = length (hs[c := hs ! c + (h + gap)])"
        using len by simp
    next
      fix k assume "k < length (hs[c := hs ! c + (h + gap)])"
      then have k: "k < length hs" by simp
      show "(hs[c := hs ! c + (h + gap)] ! k = 0 \<and> ms[c := hs ! c + h] ! k = 0) \<or>
            (gap \<le> hs[c := hs ! c + (h + gap)] ! k \<and>
             ms[c := hs ! c + h] ! k = hs[c := hs ! c + (h + gap)] ! k - gap)"
      proof (cases "k = c")
        case True
        with c len c0 h show ?thesis by simp
      next
        case False
        with cols [OF k] show ?thesis by simp
      qed
    qed
    ultimately show ?thesis by simp
  next
    case False
    then have same: "raiseColumn (ImageWithDimensions.extend img (PositionedImage.fields c (hs ! c) h w)) ms = ms"
      by (simp add: raiseColumn_def)
    from False cols [OF c] h g have z: "hs ! c = 0" "ms ! c = 0" "h = 0"
      by auto
    have "bottoms (hs[c := hs ! c + (h + gap)]) ms"
      unfolding bottoms_def
    proof (intro conjI allI impI)
      show "length ms = length (hs[c := hs ! c + (h + gap)])"
        using len by simp
    next
      fix k assume "k < length (hs[c := hs ! c + (h + gap)])"
      then have k: "k < length hs" by simp
      show "(hs[c := hs ! c + (h + gap)] ! k = 0 \<and> ms ! k = 0) \<or>
            (gap \<le> hs[c := hs ! c + (h + gap)] ! k \<and>
             ms ! k = hs[c := hs ! c + (h + gap)] ! k - gap)"
      proof (cases "k = c")
        case True
        with c z show ?thesis by simp
      next
        case False
        with cols [OF k] show ?thesis by simp
      qed
    qed
    with same show ?thesis by simp
  qed
qed

lemma placeImages_bottoms:
  assumes "hs \<noteq> []" and "bottoms hs ms"
    and "\<forall>p \<in> set (fst (placeImages w hs imgs)). 0 \<le> calculatedHeight p"
  shows "bottoms (snd (placeImages w hs imgs)) (fold raiseColumn (fst (placeImages w hs imgs)) ms)"
  using assms
proof (induction imgs arbitrary: hs ms)
  case Nil
  then show ?case by (simp add: placeImages.simps)
next
  case (Cons img imgs)
  let ?h = "Math_round (fl (of_int w / aspectRatio img))"
  let ?c = "shortest hs"
  let ?hs' = "hs[?c := hs ! ?c + (?h + gap)]"
  let ?p = "ImageWithDimensions.extend img (PositionedImage.fields ?c (hs ! ?c) ?h w)"
  from Cons.prems(3) have h: "0 \<le> ?h"
    and rest: "\<forall>p \<in> set (fst (placeImages w ?hs' imgs)). 0 \<le> calculatedHeight p"
    by (simp_all add: placeImages_Cons)
  from Cons.prems(1) have c: "?c < length hs" by (rule shortest_less)
  from Cons.prems(2) c h have "bottoms ?hs' (raiseColumn ?p ms)" by (rule bottoms_step)
  moreover from Cons.prems(1) have "?hs' \<noteq> []" by simp
  ultimately have "bottoms (snd (placeImages w ?hs' imgs))
      (fold raiseColumn (fst (placeImages w ?hs' imgs)) (raiseColumn ?p ms))"
    using rest by (intro Cons.IH)
  then show ?case by (simp add: placeImages_Cons)
qed

lemma placeImages_some_column:
  assumes "hs \<noteq> []" and "\<forall>c < length hs. 0 \<le> hs ! c"
    and "\<forall>p \<in> set (fst (placeImages w hs imgs)). 0 \<le> calculatedHeight p"
    and "imgs \<noteq> [] \<or> (\<exists>c < length hs. gap \<le> hs ! c)"
  shows "\<exists>c < length hs. gap \<le> snd (placeImages w hs imgs) ! c"
  using assms
proof (induction imgs arbitrary: hs)
  case Nil
  then show ?case by simp
next
  case (Cons img imgs)
  let ?h = "Math_round (fl (of_int w / aspectRatio img))"
  let ?c = "shortest hs"
  let ?hs' = "hs[?c := hs ! ?c + (?h + gap)]"
  from Cons.prems(3) have h: "0 \<le> ?h"
    and rest: "\<forall>p \<in> set (fst (placeImages w ?hs' imgs)). 0 \<le> calculatedHeight p"
    by (simp_all add: placeImages_Cons)
  from Cons.prems(1) have c: "?c < length hs" by (rule shortest_less)
  from Cons.prems(1) have ne': "?hs' \<noteq> []" by simp
  have g: "0 \<le> gap" by (simp add: gap_def)
  have nonneg: "\<forall>k < length ?hs'. 0 \<le> ?hs' ! k"
  proof (intro allI impI)
    fix k assume "k < length ?hs'"
    then have k: "k < length hs" by simp
    with Cons.prems(2) c h g show "0 \<le> ?hs' ! k"
      by (cases "k = ?c") simp_all
  qed
  from Cons.prems(2) c h have "gap \<le> ?hs' ! ?c" by simp
  with c have "imgs \<noteq> [] \<or> (\<exists>k < length ?hs'. gap \<le> ?hs' ! k)" by auto
  with ne' nonneg rest have "\<exists>k < length ?hs'. gap \<le> snd (placeImages w ?hs' imgs) ! k"
    by (intro Cons.IH)
  then show ?case by (simp add: placeImages_Cons)
qed

lemma bottoms_Max:
  assumes inv: "bottoms hs ms" and c: "c < length hs" "gap \<le> hs ! c"
  shows "Max (set ms) = Max (set hs) - gap"
proof -
  from inv have len: "length ms = length hs"
    and cols: "\<And>k. k < length hs \<Longrightarrow> (hs ! k = 0 \<and> ms ! k = 0) \<or> (gap \<le> hs ! k \<and> ms ! k = hs ! k - gap)"
    by (simp_all add: bottoms_def)
  have g: "0 < gap" by (simp add: gap_def)
  from c have ne: "hs \<noteq> []" by auto
  from c have "hs ! c \<le> Max (set hs)" by simp
  with c(2) have big: "gap \<le> Max (set hs)" by simp
  from ne have "Max (set hs) \<in> set hs" by simp
  then obtain m where m: "m < length hs" "hs ! m = Max (set hs)"
    by (auto simp: in_set_conv_nth)
  with cols [OF m(1)] big g have "ms ! m = Max (set hs) - gap" by auto
  with m(1) len have mem: "Max (set hs) - gap \<in> set ms"
    by (auto simp: in_set_conv_nth)
  have "y \<le> Max (set hs) - gap" if "y \<in> set ms" for y
  proof -
    from that len obtain k where k: "k < length hs" "ms ! k = y"
      by (auto simp: in_set_conv_nth)
    from k(1) have "hs ! k \<le> Max (set hs)" by simp
    with cols [OF k(1)] k(2) big show ?thesis by auto
  qed
  with mem show ?thesis by (intro Max_eqI) simp_all
qed

text \<open>
  C1, amended. For a non-empty sequence of images whose calculated heights are not
  negative, the height of the container is the greatest final column height less the
  gap: the gap after the last image of a column is not part of it.
\<close>

theorem containerHeight_without_trailing_gap:
  assumes layout: "calculateWaterfallLayout isFullscreen innerWidth images columnCount = Inr positioned"
    and ne: "images \<noteq> []"
    and h: "\<forall>p \<in> set positioned. 0 \<le> calculatedHeight p"
  shows "containerHeight positioned columnCount =
     Inr (Math_max (columnHeightsAfter isFullscreen innerWidth images columnCount) - gap)"
proof -
  let ?w = "imageWidthOf isFullscreen innerWidth columnCount"
  let ?zs = "replicate (nat columnCount) (0::int)"
  let ?hs = "snd (placeImages ?w ?zs images)"
  let ?ms = "fold raiseColumn positioned ?zs"
  from layout_Inr [OF layout ne]
  have k: "1 \<le> columnCount" and ps: "positioned = fst (placeImages ?w ?zs images)"
    by simp_all
  from k have zne: "?zs \<noteq> []" by (rule replicate_ne)
  from h ps have h': "\<forall>p \<in> set (fst (placeImages ?w ?zs images)). 0 \<le> calculatedHeight p"
    by simp
  have "bottoms ?hs (fold raiseColumn (fst (placeImages ?w ?zs images)) ?zs)"
    using zne bottoms_replicate h' by (rule placeImages_bottoms)
  then have inv: "bottoms ?hs ?ms" by (simp add: ps)
  have "\<exists>c < length ?zs. gap \<le> ?hs ! c"
    using zne _ h' by (rule placeImages_some_column) (simp_all add: ne)
  then obtain c where c: "c < length ?hs" "gap \<le> ?hs ! c"
    by (auto simp: placeImages_heights_length)
  from inv c have "Max (set ?ms) = Max (set ?hs) - gap" by (rule bottoms_Max)
  moreover from ne ps have "positioned \<noteq> []"
    using placeImages_length [of ?w ?zs images] by auto
  ultimately show ?thesis
    using k by (simp add: containerHeight_def Math_max_def columnHeightsAfter_def)
qed

text \<open>On the worked example the height is 494 less the gap, that is 478.\<close>

theorem containerHeight_without_trailing_gap_witness:
  "calculateWaterfallLayout False 664 exampleImages 2 = Inr examplePositioned
   \<and> exampleImages \<noteq> []
   \<and> list_all (\<lambda>p. 0 \<le> calculatedHeight p) examplePositioned
   \<and> containerHeight examplePositioned 2 = Inr (494 - gap)
   \<and> containerHeight examplePositioned 2 = Inr 478"
proof -
  have ne: "exampleImages \<noteq> []" by (simp add: exampleImages_def)
  have h: "list_all (\<lambda>p. 0 \<le> calculatedHeight p) examplePositioned"
    by (simp add: examplePositioned_def)
  then have h': "\<forall>p \<in> set examplePositioned. 0 \<le> calculatedHeight p"
    by (simp add: list_all_iff)
  from containerHeight_without_trailing_gap [OF example_layout ne h']
  have "containerHeight examplePositioned 2 = Inr (494 - gap)"
    by (simp add: example_columnHeights Math_max_def)
  with ne h show ?thesis by (simp add: example_layout gap_def)
qed

section \<open>The balance of the columns\<close>

text \<open>
  C5, as the claim states it, fails where the container is narrower than the gaps
  between its columns: in a viewport of 100 pixels with ten columns every image adds
  -16 to column 0, and after three images the columns differ by 48.
\<close>

theorem column_balance_counterexample:
  "containerMaxWidth False 100 = 68
   \<and> calculateWaterfallLayout False 100 narrowImages 10 = Inr narrowPositioned
   \<and> map placedHeight narrowPositioned = [- 16, - 16, - 16]
   \<and> columnHeightsAfter False 100 narrowImages 10 = [- 48, 0, 0, 0, 0, 0, 0, 0, 0, 0]
   \<and> \<not> (Math_max (columnHeightsAfter False 100 narrowImages 10)
          - Math_min (columnHeightsAfter False 100 narrowImages 10)
        \<le> Math_max (map placedHeight narrowPositioned))"
proof -
  have "map placedHeight narrowPositioned = [- 16, - 16, - 16]"
    by (simp add: narrowPositioned_def placedHeight_def gap_def)
  then show ?thesis
    by (simp add: narrow_layout narrow_columnHeights Math_max_def Math_min_def containerMaxWidth_def)
qed

lemma balance_step:
  fixes hs :: "int list"
  assumes ne: "hs \<noteq> []" and c: "c < length hs" and least: "hs ! c = Min (set hs)"
    and d: "0 \<le> d" "d \<le> B" and bal: "Max (set hs) - Min (set hs) \<le> B"
  shows "Max (set (hs[c := hs ! c + d])) - Min (set (hs[c := hs ! c + d])) \<le> B"
proof -
  let ?hs' = "hs[c := hs ! c + d]"
  from ne have ne': "?hs' \<noteq> []" by simp
  have elem: "y = hs ! c + d \<or> y \<in> set hs" if "y \<in> set ?hs'" for y
    using that set_update_subset_insert [of hs c "hs ! c + d"] by auto
  have lower: "Min (set hs) \<le> y" if "y \<in> set ?hs'" for y
  proof -
    from elem [OF that] show ?thesis
    proof
      assume "y = hs ! c + d"
      with least d(1) show ?thesis by simp
    next
      assume "y \<in> set hs"
      then show ?thesis by simp
    qed
  qed
  have upper: "y \<le> max (Max (set hs)) (Min (set hs) + d)" if "y \<in> set ?hs'" for y
  proof -
    from elem [OF that] show ?thesis
    proof
      assume "y = hs ! c + d"
      with least show ?thesis by simp
    next
      assume "y \<in> set hs"
      then have "y \<le> Max (set hs)" by simp
      then show ?thesis by simp
    qed
  qed
  from ne' have "Max (set ?hs') \<in> set ?hs'" and "Min (set ?hs') \<in> set ?hs'"
    by simp_all
  then have "Max (set ?hs') \<le> max (Max (set hs)) (Min (set hs) + d)"
    and "Min (set hs) \<le> Min (set ?hs')"
    using upper lower by blast+
  with d(2) bal show ?thesis by (simp add: max_def split: if_splits)
qed

lemma placeImages_balance:
  assumes "hs \<noteq> []" and "Max (set hs) - Min (set hs) \<le> B"
    and "\<forall>p \<in> set (fst (placeImages w hs imgs)). 0 \<le> calculatedHeight p + gap \<and> calculatedHeight p + gap \<le> B"
  shows "Max (set (snd (placeImages w hs imgs))) - Min (set (snd (placeImages w hs imgs))) \<le> B"
  using assms
proof (induction imgs arbitrary: hs)
  case Nil
  then show ?case by simp
next
  case (Cons img imgs)
  let ?h = "Math_round (fl (of_int w / aspectRatio img))"
  let ?hs' = "hs[shortest hs := hs ! shortest hs + (?h + gap)]"
  from Cons.prems(3) have d: "0 \<le> ?h + gap" "?h + gap \<le> B"
    and rest: "\<forall>p \<in> set (fst (placeImages w ?hs' imgs)). 0 \<le> calculatedHeight p + gap \<and> calculatedHeight p + gap \<le> B"
    by (simp_all add: placeImages_Cons)
  from Cons.prems(1) have "hs ! shortest hs = Min (set hs)"
    by (simp add: shortest_nth Math_min_def)
  with Cons.prems(1,2) d have "Max (set ?hs') - Min (set ?hs') \<le> B"
    by (intro balance_step) (simp_all add: shortest_less)
  moreover from Cons.prems(1) have "?hs' \<noteq> []" by simp
  ultimately have "Max (set (snd (placeImages w ?hs' imgs))) - Min (set (snd (placeImages w ?hs' imgs))) \<le> B"
    using rest by (intro Cons.IH)
  then show ?case by (simp add: placeImages_Cons)
qed

text \<open>
  C5, amended. For a non-empty sequence of images, when no image adds a negative amount
  (height and gap) to its column, the greatest and the least final column height differ
  by at most the greatest amount added by one image. By \<open>heights_nonneg\<close> this holds
  whenever the container is at least as wide as the gaps between its columns and the
  aspect ratios are positive.
\<close>

theorem column_balance:
  assumes layout: "calculateWaterfallLayout isFullscreen innerWidth images columnCount = Inr positioned"
    and ne: "images \<noteq> []"
    and d: "\<forall>p \<in> set positioned. 0 \<le> calculatedHeight p + gap"
  shows "Math_max (columnHeightsAfter isFullscreen innerWidth images columnCount)
       - Math_min (columnHeightsAfter isFullscreen innerWidth images columnCount)
     \<le> Math_max (map placedHeight positioned)"
proof -
  let ?w = "imageWidthOf isFullscreen innerWidth columnCount"
  let ?zs = "replicate (nat columnCount) (0::int)"
  let ?B = "Max (set (map placedHeight positioned))"
  from layout_Inr [OF layout ne]
  have k: "1 \<le> columnCount" and ps: "positioned = fst (placeImages ?w ?zs images)"
    by simp_all
  from k have zne: "?zs \<noteq> []" by (rule replicate_ne)
  from ne ps have pne: "positioned \<noteq> []"
    using placeImages_length [of ?w ?zs images] by auto
  have le: "calculatedHeight p + gap \<le> ?B" if "p \<in> set positioned" for p
    using that by (simp add: placedHeight_def [symmetric])
  from pne obtain p0 where "p0 \<in> set positioned" by (cases positioned) auto
  with d le have B: "0 \<le> ?B" by force
  from k have "set ?zs = {0}" by auto
  with B have init: "Max (set ?zs) - Min (set ?zs) \<le> ?B" by simp
  have "\<forall>p \<in> set (fst (placeImages ?w ?zs images)).
      0 \<le> calculatedHeight p + gap \<and> calculatedHeight p + gap \<le> ?B"
    using d le ps by simp
  with zne init
  have "Max (set (snd (placeImages ?w ?zs images))) - Min (set (snd (placeImages ?w ?zs images))) \<le> ?B"
    by (rule placeImages_balance)
  then show ?thesis
    by (simp add: Math_max_def Math_min_def columnHeightsAfter_def)
qed

text \<open>On the worked example the columns differ by 170, and the greatest amount is 324.\<close>

theorem column_balance_witness:
  "calculateWaterfallLayout False 664 exampleImages 2 = Inr examplePositioned
   \<and> exampleImages \<noteq> []
   \<and> list_all (\<lambda>p. 0 \<le> calculatedHeight p + gap) examplePositioned
   \<and> Math_max [494, 324] - Math_min [494, 324] \<le> Math_max (map placedHeight examplePositioned)
   \<and> map placedHeight examplePositioned = [170, 324, 324]"
proof -
  have ne: "exampleImages \<noteq> []" by (simp add: exampleImages_def)
  have h: "list_all (\<lambda>p. 0 \<le> calculatedHeight p + gap) examplePositioned"
    by (simp add: examplePositioned_def gap_def)
  then have h': "\<forall>p \<in> set examplePositioned. 0 \<le> calculatedHeight p + gap"
    by (simp add: list_all_iff)
  have m: "map placedHeight examplePositioned = [170, 324, 324]"
    by (simp add: examplePositioned_def placedHeight_def gap_def)
  from column_balance [OF example_layout ne h']
  have "Math_max [494, 324] - Math_min [494, 324] \<le> Math_max (map placedHeight examplePositioned)"
    by (simp add: example_columnHeights)
  with ne h m show ?thesis by (simp add: example_layout)
qed

section \<open>No two images of a column overlap\<close>

text \<open>
  C6, as the claim states it, fails in the same narrow viewport: the first and the third
  image are both in column 0, and the third starts at -32, above -16.
\<close>

theorem no_overlap_counterexample:
  "containerMaxWidth False 100 = 68
   \<and> calculateWaterfallLayout False 100 narrowImages 10 = Inr narrowPositioned
   \<and> column (narrowPositioned ! 0) = column (narrowPositioned ! 2)
   \<and> top' (narrowPositioned ! 0) = 0
   \<and> calculatedHeight (narrowPositioned ! 0) = - 32
   \<and> top' (narrowPositioned ! 2) = - 32
   \<and> \<not> (top' (narrowPositioned ! 0) + calculatedHeight (narrowPositioned ! 0) + gap
        \<le> top' (narrowPositioned ! 2))"
proof -
  have "column (narrowPositioned ! 0) = column (narrowPositioned ! 2)"
    "top' (narrowPositioned ! 0) = 0" "calculatedHeight (narrowPositioned ! 0) = - 32"
    "top' (narrowPositioned ! 2) = - 32"
    by (simp_all add: narrowPositioned_def)
  then show ?thesis
    by (simp add: narrow_layout containerMaxWidth_def gap_def)
qed

lemma placeImages_top_ge:
  assumes "hs \<noteq> []"
    and "\<forall>p \<in> set (fst (placeImages w hs imgs)). 0 \<le> calculatedHeight p + gap"
    and "q \<in> set (fst (placeImages w hs imgs))"
  shows "hs ! column q \<le> top' q"
  using assms
proof (induction imgs arbitrary: hs)
  case Nil
  then show ?case by simp
next
  case (Cons img imgs)
  let ?h = "Math_round (fl (of_int w / aspectRatio img))"
  let ?hs' = "hs[shortest hs := hs ! shortest hs + (?h + gap)]"
  from Cons.prems(2) have d: "0 \<le> ?h + gap"
    and rest: "\<forall>p \<in> set (fst (placeImages w ?hs' imgs)). 0 \<le> calculatedHeight p + gap"
    by (simp_all add: placeImages_Cons)
  from Cons.prems(3) consider
      "column q = shortest hs" "top' q = hs ! shortest hs"
    | "q \<in> set (fst (placeImages w ?hs' imgs))"
    by (auto simp: placeImages_Cons)
  then show ?case
  proof cases
    case 1
    then show ?thesis by simp
  next
    case 2
    from Cons.prems(1) have ne': "?hs' \<noteq> []" by simp
    have "?hs' ! column q \<le> top' q"
      using ne' rest 2 by (rule Cons.IH)
    moreover have "hs ! column q \<le> ?hs' ! column q"
    proof (cases "column q = shortest hs")
      case True
      with Cons.prems(1) d show ?thesis by (simp add: shortest_less)
    next
      case False
      then show ?thesis by simp
    qed
    ultimately show ?thesis by simp
  qed
qed

lemma placeImages_no_overlap:
  assumes "hs \<noteq> []"
    and "\<forall>p \<in> set (fst (placeImages w hs imgs)). 0 \<le> calculatedHeight p + gap"
    and "i < j" "j < length imgs"
    and "column (fst (placeImages w hs imgs) ! i) = column (fst (placeImages w hs imgs) ! j)"
  shows "top' (fst (placeImages w hs imgs) ! i) + calculatedHeight (fst (placeImages w hs imgs) ! i) + gap
     \<le> top' (fst (placeImages w hs imgs) ! j)"
  using assms
proof (induction imgs arbitrary: hs i j)
  case Nil
  then show ?case by simp
next
  case (Cons img imgs)
  let ?h = "Math_round (fl (of_int w / aspectRatio img))"
  let ?hs' = "hs[shortest hs := hs ! shortest hs + (?h + gap)]"
  let ?rest = "fst (placeImages w ?hs' imgs)"
  from Cons.prems(2) have rest: "\<forall>p \<in> set ?rest. 0 \<le> calculatedHeight p + gap"
    by (simp add: placeImages_Cons)
  from Cons.prems(1) have ne': "?hs' \<noteq> []" by simp
  from Cons.prems(3) obtain j' where j: "j = Suc j'" by (cases j) simp_all
  with Cons.prems(4) have j': "j' < length imgs" by simp
  show ?case
  proof (cases i)
    case 0
    from j' have q: "?rest ! j' \<in> set ?rest" by (simp add: placeImages_length)
    from Cons.prems(5) 0 j have col: "column (?rest ! j') = shortest hs"
      by (simp add: placeImages_Cons)
    have "?hs' ! column (?rest ! j') \<le> top' (?rest ! j')"
      using ne' rest q by (rule placeImages_top_ge)
    with col Cons.prems(1) have "hs ! shortest hs + (?h + gap) \<le> top' (?rest ! j')"
      by (simp add: shortest_less)
    with 0 j show ?thesis by (simp add: placeImages_Cons)
  next
    case (Suc i')
    with Cons.prems(3,5) j have "i' < j'" and "column (?rest ! i') = column (?rest ! j')"
      by (simp_all add: placeImages_Cons)
    with ne' rest j' have "top' (?rest ! i') + calculatedHeight (?rest ! i') + gap \<le> top' (?rest ! j')"
      by (intro Cons.IH)
    with Suc j show ?thesis by (simp add: placeImages_Cons)
  qed
qed

text \<open>
  C6, amended. When no image adds a negative amount (height and gap) to its column, of
  two images of the same column the one placed later starts at or below the offset of
  the earlier one plus its height plus the gap.
\<close>

theorem no_overlap_in_column:
  assumes layout: "calculateWaterfallLayout isFullscreen innerWidth images columnCount = Inr positioned"
    and d: "\<forall>p \<in> set positioned. 0 \<le> calculatedHeight p + gap"
    and ij: "i < j" "j < length positioned"
    and col: "column (positioned ! i) = column (positioned ! j)"
  shows "top' (positioned ! i) + calculatedHeight (positioned ! i) + gap \<le> top' (positioned ! j)"
proof -
  let ?w = "imageWidthOf isFullscreen innerWidth columnCount"
  let ?zs = "replicate (nat columnCount) (0::int)"
  from ij layout have ne: "images \<noteq> []"
    by (auto simp: calculateWaterfallLayout_def)
  from layout_Inr [OF layout ne]
  have k: "1 \<le> columnCount" and ps: "positioned = fst (placeImages ?w ?zs images)"
    by simp_all
  from k have zne: "?zs \<noteq> []" by (rule replicate_ne)
  from ij(2) ps have j: "j < length images" by (simp add: placeImages_length)
  from zne d ij(1) j col show ?thesis
    unfolding ps by (rule placeImages_no_overlap)
qed

text \<open>The first and the third image of the worked example share column 0.\<close>

theorem no_overlap_in_column_witness:
  "calculateWaterfallLayout False 664 exampleImages 2 = Inr examplePositioned
   \<and> list_all (\<lambda>p. 0 \<le> calculatedHeight p + gap) examplePositioned
   \<and> (0::nat) < 2 \<and> 2 < length examplePositioned
   \<and> column (examplePositioned ! 0) = column (examplePositioned ! 2)
   \<and> top' (examplePositioned ! 0) + calculatedHeight (examplePositioned ! 0) + gap
       \<le> top' (examplePositioned ! 2)"
proof -
  have h: "list_all (\<lambda>p. 0 \<le> calculatedHeight p + gap) examplePositioned"
    by (simp add: examplePositioned_def gap_def)
  then have h': "\<forall>p \<in> set examplePositioned. 0 \<le> calculatedHeight p + gap"
    by (simp add: list_all_iff)
  have ij: "(0::nat) < 2" "2 < length examplePositioned"
    by (simp_all add: examplePositioned_def)
  have col: "column (examplePositioned ! 0) = column (examplePositioned ! 2)"
    by (simp add: examplePositioned_def)
  from no_overlap_in_column [OF example_layout h' ij col] h ij col
  show ?thesis by (simp add: example_layout)
qed

section \<open>A change of the container width\<close>




section \<open>An image that fails to load\<close>

text \<open>
  C9. When the browser fires \<^verbatim>\<open>onerror\<close> the promise is resolved with the file and the
  dimensions 300 by 200, aspect ratio 1.5; and in any gallery the layout has the same
  columns, offsets, heights and widths (and the same fault, if any) as with a decoded
  image of that aspect ratio in its place.
\<close>

theorem decode_failure_fallback:
  "\<exists>resolved. loadImageDimensions imageFile onerror = Inr resolved
     \<and> ImageFile.truncate resolved = imageFile
     \<and> width resolved = 300 \<and> height resolved = 200 \<and> aspectRatio resolved = 3 / 2
     \<and> (\<forall>decoded before after isFullscreen innerWidth columnCount.
          aspectRatio decoded = 3 / 2 \<longrightarrow>
            map_sum id (map geometry)
              (calculateWaterfallLayout isFullscreen innerWidth (before @ resolved # after) columnCount)
          = map_sum id (map geometry)
              (calculateWaterfallLayout isFullscreen innerWidth (before @ decoded # after) columnCount))"
proof -
  let ?r = "ImageFile.extend imageFile (ImageWithDimensions.fields 300 200 (3 / 2))"
  have "loadImageDimensions imageFile onerror = Inr ?r" by simp
  moreover have "ImageFile.truncate ?r = imageFile"
    by (simp add: record_defs)
  moreover have a: "width ?r = 300 \<and> height ?r = 200 \<and> aspectRatio ?r = 3 / 2"
    by (simp add: record_defs)
  moreover have "map_sum id (map geometry)
        (calculateWaterfallLayout isFullscreen innerWidth (before @ ?r # after) columnCount)
      = map_sum id (map geometry)
        (calculateWaterfallLayout isFullscreen innerWidth (before @ decoded # after) columnCount)"
    if "aspectRatio decoded = 3 / 2" for decoded before after isFullscreen innerWidth columnCount
    using that a by (intro layout_geometry) simp
  ultimately show ?thesis by blast
qed

text \<open>The fallback in the place of an image of 600 by 400 pixels.\<close>

theorem decode_failure_fallback_witness:
  "loadImageDimensions (exampleFile ''x'') onerror =
     Inr (ImageFile.extend (exampleFile ''x'') (ImageWithDimensions.fields 300 200 (3 / 2)))
   \<and> aspectRatio (exampleImage ''y'' 600 400) = 3 / 2
   \<and> map_sum id (map geometry)
       (calculateWaterfallLayout False 664
          [exampleImage ''a'' 600 300,
           ImageFile.extend (exampleFile ''x'') (ImageWithDimensions.fields 300 200 (3 / 2)),
           exampleImage ''c'' 500 500] 2)
     = map_sum id (map geometry)
       (calculateWaterfallLayout False 664
          [exampleImage ''a'' 600 300, exampleImage ''y'' 600 400, exampleImage ''c'' 500 500] 2)
   \<and> map_sum id (map geometry)
       (calculateWaterfallLayout False 664
          [exampleImage ''a'' 600 300, exampleImage ''y'' 600 400, exampleImage ''c'' 500 500] 2)
     = Inr [(0, 0, 154, 308), (1, 0, 205, 308), (0, 170, 308, 308)]"
proof -
  let ?x = "ImageFile.extend (exampleFile ''x'') (ImageWithDimensions.fields 300 200 (3 / 2))"
  have a: "aspectRatio (exampleImage ''y'' 600 400) = 3 / 2"
    by (rule ratio_600_400)
  have g: "map_sum id (map geometry)
       (calculateWaterfallLayout False 664
          [exampleImage ''a'' 600 300, exampleImage ''y'' 600 400, exampleImage ''c'' 500 500] 2)
     = Inr [(0, 0, 154, 308), (1, 0, 205, 308), (0, 170, 308, 308)]"
    by (simp add: layout_eval geometry_def cong: let_weak_cong)
  from decode_failure_fallback [of "exampleFile ''x''"] obtain resolved where
    r: "loadImageDimensions (exampleFile ''x'') onerror = Inr resolved"
    and cong: "\<And>decoded xs ys fs iw k.
      aspectRatio decoded = 3 / 2 \<Longrightarrow>
        map_sum id (map geometry) (calculateWaterfallLayout fs iw (xs @ resolved # ys) k)
      = map_sum id (map geometry) (calculateWaterfallLayout fs iw (xs @ decoded # ys) k)"
    by blast
  from r have x: "resolved = ?x" by simp
  have l: "loadImageDimensions (exampleFile ''x'') onerror = Inr ?x" by simp
  from cong [OF a, where xs = "[exampleImage ''a'' 600 300]"
      and ys = "[exampleImage ''c'' 500 500]" and fs = False and iw = 664 and k = 2]
  have "map_sum id (map geometry)
       (calculateWaterfallLayout False 664
          [exampleImage ''a'' 600 300, ?x, exampleImage ''c'' 500 500] 2)
     = map_sum id (map geometry)
       (calculateWaterfallLayout False 664
          [exampleImage ''a'' 600 300, exampleImage ''y'' 600 400, exampleImage ''c'' 500 500] 2)"
    unfolding x by simp
  with l a g show ?thesis by (intro conjI)
qed

section \<open>Shuffling is a permutation\<close>

lemma random_index:
  fixes r :: rat
  assumes "0 \<le> r" "r < 1"
  shows "nat \<lfloor>r * (of_nat i + 1)\<rfloor> \<le> i"
proof -
  have "(0::rat) < of_nat i + 1"
    by (simp add: add_nonneg_pos)
  with assms(2) have "r * (of_nat i + 1) < 1 * (of_nat i + 1)"
    by (rule mult_strict_right_mono)
  then have "r * (of_nat i + 1) < of_int (int i + 1)"
    by simp
  then have "\<lfloor>r * (of_nat i + 1)\<rfloor> < int i + 1"
    by (simp only: floor_less_iff)
  then show ?thesis by simp
qed

lemma shuffleLoop_mset:
  assumes "\<forall>i. 0 \<le> random i \<and> random i < 1" and "n < length xs \<or> n = 0"
  shows "mset (shuffleLoop random n xs) = mset xs"
  using assms(2)
proof (induction n arbitrary: xs)
  case 0
  then show ?case by simp
next
  case (Suc n)
  let ?j = "nat \<lfloor>random (Suc n) * (of_nat (Suc n) + 1)\<rfloor>"
  let ?xs' = "xs[Suc n := xs ! ?j, ?j := xs ! Suc n]"
  from Suc.prems have i: "Suc n < length xs" by simp
  from assms(1) have "?j \<le> Suc n" by (intro random_index) simp_all
  with i have j: "?j < length xs" by simp
  from j i have swap: "mset ?xs' = mset xs" by (rule mset_swap)
  from i have "n < length ?xs' \<or> n = 0" by simp
  then have "mset (shuffleLoop random n ?xs') = mset ?xs'" by (rule Suc.IH)
  with swap show ?case by (simp add: Let_def)
qed

text \<open>
  C10. Whatever numbers of the unit interval \<^verbatim>\<open>Math.random\<close> returns, the shuffled list
  has the length of the list before, the same entries with the same multiplicities, and
  so the same multiset of ids.
\<close>

theorem shuffle_is_permutation:
  assumes "\<forall>i. 0 \<le> random i \<and> random i < 1"
  shows "length (shuffleImages random prev) = length prev
     \<and> mset (shuffleImages random prev) = mset prev
     \<and> mset (map id' (shuffleImages random prev)) = mset (map id' prev)"
proof -
  have "length prev - 1 < length prev \<or> length prev - 1 = 0"
    by (cases prev) simp_all
  with assms have m: "mset (shuffleImages random prev) = mset prev"
    unfolding shuffleImages_def by (rule shuffleLoop_mset)
  then have "length (shuffleImages random prev) = length prev"
    by (rule mset_eq_length)
  moreover from m have "mset (map id' (shuffleImages random prev)) = mset (map id' prev)"
    by (metis mset_map)
  ultimately show ?thesis using m by simp
qed

text \<open>With one half in every round, the last two of three files are swapped.\<close>

theorem shuffle_is_permutation_witness:
  "(\<forall>i. 0 \<le> halves i \<and> halves i < 1)
   \<and> shuffleImages halves [exampleFile ''a'', exampleFile ''b'', exampleFile ''c'']
      = [exampleFile ''a'', exampleFile ''c'', exampleFile ''b'']
   \<and> length (shuffleImages halves [exampleFile ''a'', exampleFile ''b'', exampleFile ''c'']) = 3
   \<and> mset (shuffleImages halves [exampleFile ''a'', exampleFile ''b'', exampleFile ''c''])
      = mset [exampleFile ''a'', exampleFile ''b'', exampleFile ''c'']"
proof -
  have r: "\<forall>i. 0 \<le> halves i \<and> halves i < 1" by (simp add: halves_def)
  have s: "shuffleImages halves [exampleFile ''a'', exampleFile ''b'', exampleFile ''c'']
      = [exampleFile ''a'', exampleFile ''c'', exampleFile ''b'']"
    by code_simp
  from shuffle_is_permutation [OF r, of "[exampleFile ''a'', exampleFile ''b'', exampleFile ''c'']"] r s
  show ?thesis by simp
qed

end
